theory Spec2Isabelle
  imports Complex_Main "HOL-Library.Word"
begin

section \<open>The PDF text-extraction service (pdf-service/main.py)\<close>

subsection \<open>Python values\<close>

text \<open>
  A Python \<open>str\<close> is a sequence of Unicode code points, so it is a list of naturals;
  \<open>lit\<close> turns an ASCII literal of the source into one. \<open>bytes\<close> is a list of octets.
\<close>

type_synonym pystr = "nat list"

type_synonym byte = "8 word"

definition lit :: "string \<Rightarrow> pystr" where
  "lit cs = map of_char cs"

text \<open>
  The characters \<open>str.strip()\<close> removes when called without an argument: the code points
  for which CPython's \<open>Py_UNICODE_ISSPACE\<close> holds (U+0009..U+000D, U+001C..U+0020, U+0085,
  U+00A0, U+1680, U+2000..U+200A, U+2028, U+2029, U+202F, U+205F, U+3000).
\<close>

definition isspace :: "nat \<Rightarrow> bool" where
  "isspace c \<longleftrightarrow>
     (9 \<le> c \<and> c \<le> 13) \<or> (28 \<le> c \<and> c \<le> 32) \<or> c = 133 \<or> c = 160 \<or> c = 5760 \<or>
     (8192 \<le> c \<and> c \<le> 8202) \<or> c = 8232 \<or> c = 8233 \<or> c = 8239 \<or> c = 8287 \<or> c = 12288"

definition strip :: "pystr \<Rightarrow> pystr" where
  "strip t = rev (dropWhile isspace (rev (dropWhile isspace t)))"

text \<open>Truthiness of an optional string: \<open>None\<close> and \<open>""\<close> are false.\<close>

fun truthy :: "pystr option \<Rightarrow> bool" where
  "truthy None = False"
| "truthy (Some t) = (t \<noteq> [])"

text \<open>
  A raised exception with its \<open>str(e)\<close>. \<open>except Exception\<close> catches the instances of
  \<open>Exception\<close> (parse errors, \<open>OSError\<close>, \<open>AssertionError\<close>, ...), not the other
  subclasses of \<open>BaseException\<close> (\<open>KeyboardInterrupt\<close>, \<open>SystemExit\<close>, ...).
\<close>

datatype py_exception = PyException pystr | PyBaseException pystr

subsection \<open>Formatting the file size\<close>

text \<open>
  \<open>str(n)\<close> for a natural number: its decimal digits, \<open>48\<close> being the code point of
  \<open>0\<close>.
\<close>

fun str_nat :: "nat \<Rightarrow> pystr" where
  "str_nat n = (if n < 10 then [48 + n] else str_nat (n div 10) @ [48 + n mod 10])"

declare str_nat.simps [simp del]

text \<open>The integer nearest to \<open>a / b\<close>, a tie going to the even neighbour.\<close>

definition round_half_even :: "nat \<Rightarrow> nat \<Rightarrow> nat" where
  "round_half_even a b =
     (let d = a div b; r = a mod b
      in if b < 2 * r \<or> (2 * r = b \<and> odd d) then d + 1 else d)"

text \<open>
  \<open>f"{n/1024:.2f}"\<close> for \<open>n = len(contents)\<close>. The quotient \<open>n/1024\<close> is a double; the
  divisor is a power of two, so the double is the exact quotient for every \<open>n < 2^53\<close>
  (a buffer of 8 PiB is beyond any memory). The format \<open>.2f\<close> prints the multiple of
  \<open>0.01\<close> nearest to the exact value of the double, a tie going to the even one: the
  integer part, a point, two digits. \<open>hundredths n\<close> is the printed value times 100.
\<close>

definition hundredths :: "nat \<Rightarrow> nat" where
  "hundredths n = round_half_even (100 * n) 1024"

definition format_2f :: "nat \<Rightarrow> pystr" where
  "format_2f q = str_nat (q div 100) @ lit ''.'' @ [48 + q mod 100 div 10, 48 + q mod 10]"

definition size_kb :: "nat \<Rightarrow> pystr" where
  "size_kb n = format_2f (hundredths n)"

subsection \<open>Logging\<close>

text \<open>
  \<open>logging.basicConfig(level=logging.INFO)\<close>: every record of the handler is emitted. The
  log is the one piece of state the handler touches; it is passed in and returned.
\<close>

datatype level = INFO | WARNING | ERROR

type_synonym logger = "(level \<times> pystr) list"

definition log_to :: "logger \<Rightarrow> level \<Rightarrow> pystr \<Rightarrow> logger" where
  "log_to lg lv msg = lg @ [(lv, msg)]"

subsection \<open>The collaborators: the upload and pdfplumber\<close>

text \<open>
  \<open>UploadFile\<close>: the filename and what \<open>await file.read()\<close> gives, the bytes or an
  exception.
\<close>

record UploadFile =
  filename :: pystr
  read :: "py_exception + byte list"

text \<open>
  pdfplumber is outside the repository: \<open>pdfplumber.open\<close> is a parameter of the handler,
  a function of the bytes. Opening can raise; so can the \<open>pages\<close> property and each
  \<open>page.extract_text()\<close>, which otherwise returns a string or \<open>None\<close>.
\<close>

datatype Page = Page (extract_text_of: "py_exception + pystr option")

datatype PDF = PDF (pages: "py_exception + Page list")

type_synonym pdfplumber = "byte list \<Rightarrow> py_exception + PDF"

subsection \<open>The handler\<close>

datatype ExtractionResult = Success pystr | Failure pystr

text \<open>
  The loop over \<open>pdf.pages\<close> (lines 30 to 33), from the accumulator \<open>text\<close>: a page whose
  text is truthy appends it and two newlines, an exception leaves the loop.
\<close>

fun pages_loop :: "Page list \<Rightarrow> pystr \<Rightarrow> py_exception + pystr" where
  "pages_loop [] text = Inr text"
| "pages_loop (page # rest) text =
     (case extract_text_of page of
        Inl e \<Rightarrow> Inl e
      | Inr page_text \<Rightarrow>
          if truthy page_text then pages_loop rest (text @ the page_text @ lit ''\<newline>\<newline>'')
          else pages_loop rest text)"

text \<open>The \<open>with pdfplumber.open(io.BytesIO(contents)) as pdf\<close> block (lines 28 to 33).\<close>

definition with_pdf :: "pdfplumber \<Rightarrow> byte list \<Rightarrow> py_exception + pystr" where
  "with_pdf pdfplumber_open contents =
     (case pdfplumber_open contents of
        Inl e \<Rightarrow> Inl e
      | Inr pdf \<Rightarrow>
          (case pages pdf of
             Inl e \<Rightarrow> Inl e
           | Inr ps \<Rightarrow> pages_loop ps []))"

text \<open>The text of the \<open>else\<close> branch (line 40).\<close>

definition placeholder :: "pystr \<Rightarrow> nat \<Rightarrow> pystr" where
  "placeholder fname n =
     lit ''PDF Document: '' @ fname @ lit ''\<newline>\<newline>File Size: '' @ size_kb n @
     lit ''KB\<newline>\<newline>This PDF appears to be image-based. Text extraction requires OCR processing.''"

text \<open>The body of the \<open>try\<close> (lines 25 to 40): the log and the value returned or raised.\<close>

definition try_body ::
  "pdfplumber \<Rightarrow> UploadFile \<Rightarrow> logger \<Rightarrow> logger \<times> (py_exception + ExtractionResult)" where
  "try_body pdfplumber_open file lg0 =
     (let lg1 = log_to lg0 INFO (lit ''Processing PDF: '' @ filename file)
      in case read file of
           Inl e \<Rightarrow> (lg1, Inl e)
         | Inr contents \<Rightarrow>
             (case with_pdf pdfplumber_open contents of
                Inl e \<Rightarrow> (lg1, Inl e)
              | Inr text \<Rightarrow>
                  if strip text \<noteq> [] then
                    (log_to lg1 INFO (lit ''Successfully extracted text from '' @ filename file),
                     Inr (Success text))
                  else
                    (log_to lg1 WARNING
                       (lit ''No text extracted from '' @ filename file @
                        lit '' - possibly image-based PDF''),
                     Inr (Success (placeholder (filename file) (length contents))))))"

text \<open>
  \<open>extract_text\<close> (lines 23 to 44): \<open>except Exception as e\<close> logs and answers
  \<open>Failure\<close>; any other exception leaves the handler (\<open>Inl\<close>).
\<close>

definition extract_text ::
  "pdfplumber \<Rightarrow> UploadFile \<Rightarrow> logger \<Rightarrow> logger \<times> (py_exception + ExtractionResult)" where
  "extract_text pdfplumber_open file lg0 =
     (case try_body pdfplumber_open file lg0 of
        (lg, Inr result) \<Rightarrow> (lg, Inr result)
      | (lg, Inl (PyException msg)) \<Rightarrow>
          (log_to lg ERROR (lit ''Error processing PDF '' @ filename file @ lit '': '' @ msg),
           Inr (Failure msg))
      | (lg, Inl (PyBaseException msg)) \<Rightarrow> (lg, Inl (PyBaseException msg)))"

subsection \<open>Process configuration\<close>

text \<open>
  The \<open>__main__\<close> block (lines 46 to 49). \<open>os.getenv("PORT", 8000)\<close> is the variable's
  string or the integer default; \<open>int\<close> of an integer is that integer, and \<open>int\<close> of a
  string, Python's parser of integer literals, is a parameter that can raise. The value
  is the argument list of \<open>uvicorn.run\<close>.
\<close>

datatype str_or_int = PyStr pystr | PyInt int

record uvicorn_run =
  host :: pystr
  port :: int

definition getenv :: "(pystr \<rightharpoonup> pystr) \<Rightarrow> pystr \<Rightarrow> int \<Rightarrow> str_or_int" where
  "getenv environ key dflt = (case environ key of None \<Rightarrow> PyInt dflt | Some v \<Rightarrow> PyStr v)"

fun py_int :: "(pystr \<Rightarrow> py_exception + int) \<Rightarrow> str_or_int \<Rightarrow> py_exception + int" where
  "py_int int_of_str (PyInt n) = Inr n"
| "py_int int_of_str (PyStr v) = int_of_str v"

definition main :: "(pystr \<Rightarrow> py_exception + int) \<Rightarrow> (pystr \<rightharpoonup> pystr) \<Rightarrow> py_exception + uvicorn_run" where
  "main int_of_str environ =
     (case py_int int_of_str (getenv environ (lit ''PORT'') 8000) of
        Inl e \<Rightarrow> Inl e
      | Inr p \<Rightarrow> Inr \<lparr>host = lit ''0.0.0.0'', port = p\<rparr>)"

subsection \<open>What the specification describes\<close>

text \<open>
  A document whose pages all extract without an exception is given by the list of what
  \<open>extract_text()\<close> returns on each page, in document order. \<open>spec_text\<close> is the
  text the specification asks for: every non-empty page text followed by two newlines,
  nothing for a page whose text is empty or absent.
\<close>

fun text_or_empty :: "pystr option \<Rightarrow> pystr" where
  "text_or_empty None = []"
| "text_or_empty (Some t) = t"

definition spec_text :: "pystr option list \<Rightarrow> pystr" where
  "spec_text ts =
     concat (map (\<lambda>t. t @ lit ''\<newline>\<newline>'') (filter (\<lambda>t. t \<noteq> []) (map text_or_empty ts)))"

definition pages_of :: "pystr option list \<Rightarrow> Page list" where
  "pages_of ts = map (\<lambda>t. Page (Inr t)) ts"

text \<open>
  The number a string of the shape \<open>d...d.dd\<close> denotes, in hundredths: its digits
  read in base ten, the point skipped (\<open>46\<close> is the point, \<open>48\<close> the digit zero).
\<close>

definition printed_hundredths :: "pystr \<Rightarrow> nat" where
  "printed_hundredths t = foldl (\<lambda>v d. 10 * v + (d - 48)) 0 (filter (\<lambda>c. c \<noteq> 46) t)"

subsection \<open>Stubs for examples\<close>

text \<open>The function that answers \<open>r\<close> whatever it is given.\<close>

definition always :: "'b \<Rightarrow> 'a \<Rightarrow> 'b" where
  "always r x = r"

text \<open>An upload whose \<open>read()\<close> succeeds, and the four bytes \<open>%PDF\<close>.\<close>

definition upload :: "pystr \<Rightarrow> byte list \<Rightarrow> UploadFile" where
  "upload fname bs = \<lparr>filename = fname, read = Inr bs\<rparr>"

definition pdf_magic :: "byte list" where
  "pdf_magic = [37, 80, 68, 70]"


section \<open>Properties\<close>

subsection \<open>Whitespace and stripping\<close>

lemma in_set_dropWhile: "c \<in> set t \<Longrightarrow> \<not> P c \<Longrightarrow> c \<in> set (dropWhile P t)"
  by (induction t) auto

lemma strip_Nil_iff: "strip t = [] \<longleftrightarrow> (\<forall>c\<in>set t. isspace c)"
proof
  assume "strip t = []"
  then have all: "\<forall>x\<in>set (dropWhile isspace t). isspace x"
    by (simp add: strip_def)
  show "\<forall>c\<in>set t. isspace c"
  proof
    fix c assume "c \<in> set t"
    show "isspace c"
    proof (rule ccontr)
      assume "\<not> isspace c"
      with \<open>c \<in> set t\<close> have "c \<in> set (dropWhile isspace t)" by (rule in_set_dropWhile)
      with all \<open>\<not> isspace c\<close> show False by blast
    qed
  qed
next
  assume "\<forall>c\<in>set t. isspace c"
  then have dw: "dropWhile isspace t = []" by simp
  show "strip t = []" unfolding strip_def dw by simp
qed

lemma isspace_newline: "\<forall>c\<in>set (lit ''\<newline>\<newline>''). isspace c"
  by (simp add: lit_def isspace_def)

lemma round_half_even_near:
  assumes "0 < b"
  shows "2 * a \<le> 2 * b * round_half_even a b + b \<and> 2 * b * round_half_even a b \<le> 2 * a + b"
proof -
  have a: "a = b * (a div b) + a mod b" by simp
  have r: "a mod b < b" using assms by simp
  define d where "d = a div b"
  define r where "r = a mod b"
  have 1: "a = b * d + r" "r < b" using a r by (simp_all add: d_def r_def)
  have "round_half_even a b = (if b < 2 * r \<or> (2 * r = b \<and> odd d) then d + 1 else d)"
    by (simp add: round_half_even_def d_def r_def Let_def)
  then show ?thesis using 1 by (auto simp: algebra_simps)
qed

lemma hundredths_near:
  "100 * n \<le> 1024 * hundredths n + 512 \<and> 1024 * hundredths n \<le> 100 * n + 512"
  using round_half_even_near [of 1024 "100 * n"] by (simp add: hundredths_def)

subsection \<open>The page loop\<close>

lemma spec_text_Nil: "spec_text [] = []"
  by (simp add: spec_text_def)

lemma spec_text_Cons:
  "spec_text (t # ts) = (if truthy t then the t @ lit ''\<newline>\<newline>'' @ spec_text ts else spec_text ts)"
  by (cases t) (simp_all add: spec_text_def)

lemma pages_loop_pages_of: "pages_loop (pages_of ts) acc = Inr (acc @ spec_text ts)"
proof (induction ts arbitrary: acc)
  case Nil
  show ?case by (simp add: pages_of_def spec_text_Nil)
next
  case (Cons t ts)
  have step: "pages_loop (pages_of (t # ts)) acc =
      (if truthy t then pages_loop (pages_of ts) (acc @ the t @ lit ''\<newline>\<newline>'')
       else pages_loop (pages_of ts) acc)"
    by (simp add: pages_of_def)
  show ?case unfolding step by (simp add: Cons.IH spec_text_Cons)
qed

lemma pages_loop_raises:
  "\<forall>q\<in>set pre. \<exists>t. extract_text_of q = Inr t \<Longrightarrow>
   pages_loop (pre @ Page (Inl e) # post) acc = Inl e"
proof (induction pre arbitrary: acc)
  case Nil
  show ?case by simp
next
  case (Cons q pre)
  from Cons.prems obtain t where t: "extract_text_of q = Inr t" by auto
  from Cons.prems have rest: "\<forall>q\<in>set pre. \<exists>t. extract_text_of q = Inr t" by simp
  show ?case by (simp add: t Cons.IH [OF rest])
qed

lemma pages_loop_suffix:
  "pages_loop ps acc = Inr txt \<Longrightarrow> \<exists>suffix. txt = acc @ suffix \<and> (suffix = [] \<or> last suffix = 10)"
proof (induction ps arbitrary: acc)
  case Nil
  then show ?case by simp
next
  case (Cons p ps)
  show ?case
  proof (cases "extract_text_of p")
    case (Inl e)
    with Cons.prems show ?thesis by simp
  next
    case (Inr page_text)
    show ?thesis
    proof (cases "truthy page_text")
      case True
      with Inr Cons.prems have "pages_loop ps (acc @ the page_text @ lit ''\<newline>\<newline>'') = Inr txt"
        by simp
      from Cons.IH [OF this] obtain suffix where
        s: "txt = (acc @ the page_text @ lit ''\<newline>\<newline>'') @ suffix" "suffix = [] \<or> last suffix = 10"
        by blast
      have "last (the page_text @ lit ''\<newline>\<newline>'' @ suffix) = 10"
        using s(2) by (auto simp: lit_def)
      moreover have "txt = acc @ (the page_text @ lit ''\<newline>\<newline>'' @ suffix)"
        using s(1) by simp
      ultimately show ?thesis by blast
    next
      case False
      with Inr Cons.prems have "pages_loop ps acc = Inr txt" by simp
      from Cons.IH [OF this] show ?thesis .
    qed
  qed
qed

lemma isspace_10: "isspace 10"
  by (simp add: isspace_def)

lemma set_spec_text:
  "set (spec_text ts) = (\<Union>t\<in>set ts. set (text_or_empty t)) \<union> (if \<exists>t\<in>set ts. truthy t then {10} else {})"
proof (induction ts)
  case Nil
  show ?case by (simp add: spec_text_Nil)
next
  case (Cons t ts)
  show ?case by (cases t) (auto simp: spec_text_Cons Cons.IH lit_def)
qed

lemma last_strip_not_space: "strip t \<noteq> [] \<Longrightarrow> \<not> isspace (last (strip t))"
proof -
  assume ne: "strip t \<noteq> []"
  define u where "u = dropWhile isspace (rev (dropWhile isspace t))"
  have s: "strip t = rev u" by (simp add: strip_def u_def)
  with ne have "u \<noteq> []" by simp
  then have "\<not> isspace (hd u)" unfolding u_def by (rule hd_dropWhile)
  moreover have "last (strip t) = hd u" using \<open>u \<noteq> []\<close> by (simp add: s last_rev)
  ultimately show ?thesis by simp
qed

subsection \<open>The handler's three outcomes\<close>

lemma with_pdf_pages_of:
  "pdfplumber_open contents = Inr (PDF (Inr (pages_of ts))) \<Longrightarrow>
   with_pdf pdfplumber_open contents = Inr (spec_text ts)"
  by (simp add: with_pdf_def pages_loop_pages_of)

lemma extract_text_returns:
  assumes "read file = Inr contents" and "with_pdf pdfplumber_open contents = Inr txt"
  shows "snd (extract_text pdfplumber_open file lg) =
           Inr (Success (if strip txt \<noteq> [] then txt
                         else placeholder (filename file) (length contents)))"
  using assms by (simp add: extract_text_def try_body_def Let_def)

lemma extract_text_raises:
  assumes "read file = Inr contents"
    and "with_pdf pdfplumber_open contents = Inl (PyException msg)"
  shows "extract_text pdfplumber_open file lg =
           (log_to (log_to lg INFO (lit ''Processing PDF: '' @ filename file)) ERROR
              (lit ''Error processing PDF '' @ filename file @ lit '': '' @ msg),
            Inr (Failure msg))"
  using assms by (simp add: extract_text_def try_body_def Let_def)

lemma with_pdf_raises:
  assumes "pdfplumber_open contents = Inl e \<or>
     (\<exists>pdf. pdfplumber_open contents = Inr pdf \<and>
        (pages pdf = Inl e \<or>
         (\<exists>pre post. pages pdf = Inr (pre @ Page (Inl e) # post) \<and>
            (\<forall>q\<in>set pre. \<exists>t. extract_text_of q = Inr t))))"
  shows "with_pdf pdfplumber_open contents = Inl e"
  using assms by (auto simp: with_pdf_def pages_loop_raises)

subsection \<open>The printed size\<close>

lemma foldl_str_nat: "foldl (\<lambda>v d. 10 * v + (d - 48)) 0 (str_nat n) = n"
proof (induction n rule: str_nat.induct)
  case (1 n)
  show ?case
  proof (cases "n < 10")
    case True
    then show ?thesis by (simp add: str_nat.simps [of n])
  next
    case False
    with "1.IH" show ?thesis by (simp add: str_nat.simps [of n])
  qed
qed

lemma str_nat_digits: "c \<in> set (str_nat n) \<Longrightarrow> 48 \<le> c \<and> c \<le> 57"
proof (induction n rule: str_nat.induct)
  case (1 n)
  show ?case
  proof (cases "n < 10")
    case True
    with "1.prems" show ?thesis by (simp add: str_nat.simps [of n])
  next
    case False
    with "1.prems" "1.IH" show ?thesis by (auto simp: str_nat.simps [of n])
  qed
qed

lemma filter_str_nat: "filter (\<lambda>c. c \<noteq> 46) (str_nat n) = str_nat n"
  by (rule filter_True) (auto dest: str_nat_digits)

lemma printed_format_2f: "printed_hundredths (format_2f q) = q"
proof -
  have "filter (\<lambda>c. c \<noteq> 46) (format_2f q) =
          str_nat (q div 100) @ [48 + q mod 100 div 10, 48 + q mod 10]"
    by (simp add: format_2f_def filter_str_nat lit_def)
  then have "printed_hundredths (format_2f q) =
          10 * (10 * (q div 100) + q mod 100 div 10) + q mod 10"
    by (simp add: printed_hundredths_def foldl_str_nat)
  also have "\<dots> = 100 * (q div 100) + (10 * (q mod 100 div 10) + q mod 100 mod 10)"
    by (simp add: mod_mod_cancel)
  also have "\<dots> = 100 * (q div 100) + q mod 100"
    by (simp only: mult_div_mod_eq)
  also have "\<dots> = q"
    by (simp only: mult_div_mod_eq)
  finally show ?thesis .
qed

lemma size_kb_near:
  "\<bar>real (printed_hundredths (size_kb n)) / 100 - real n / 1024\<bar> \<le> 1 / 200"
proof -
  let ?q = "hundredths n"
  from hundredths_near [of n]
  have "real (100 * n) \<le> real (1024 * ?q + 512)" and "real (1024 * ?q) \<le> real (100 * n + 512)"
    by (simp_all only: of_nat_le_iff)
  then have "\<bar>real ?q / 100 - real n / 1024\<bar> \<le> 1 / 200"
    by (simp add: abs_le_iff field_simps)
  then show ?thesis by (simp add: size_kb_def printed_format_2f)
qed

section \<open>The claims\<close>

subsection \<open>Text assembly\<close>

lemma upload_simps: "filename (upload fname bs) = fname" "read (upload fname bs) = Inr bs"
  by (simp_all add: upload_def)

text \<open>
  C1, as stated, fails: one page whose extracted text is a single space is a page with
  non-empty text, yet the handler does not answer that text and its two newlines; the
  accumulated text is blank once stripped, and the placeholder is returned.
\<close>

theorem nonempty_page_not_returned:
  "truthy (Some (lit '' '')) \<and>
   snd (extract_text (always (Inr (PDF (Inr (pages_of [Some (lit '' '')])))))
          (upload (lit ''scan.pdf'') pdf_magic) [])
     \<noteq> Inr (Success (spec_text [Some (lit '' '')]))"
proof -
  have "with_pdf (always (Inr (PDF (Inr (pages_of [Some (lit '' '')]))))) pdf_magic
          = Inr (spec_text [Some (lit '' '')])"
    by (rule with_pdf_pages_of) (simp add: always_def)
  with upload_simps(2) have "snd (extract_text (always (Inr (PDF (Inr (pages_of [Some (lit '' '')])))))
          (upload (lit ''scan.pdf'') pdf_magic) []) =
      Inr (Success (if strip (spec_text [Some (lit '' '')]) \<noteq> [] then spec_text [Some (lit '' '')]
                    else placeholder (filename (upload (lit ''scan.pdf'') pdf_magic)) (length pdf_magic)))"
    by (rule extract_text_returns)
  then show ?thesis
    by (simp add: upload_simps spec_text_def placeholder_def lit_def strip_def isspace_def)
qed

text \<open>
  C1, amended: for every PDF that is parsed without an exception and has at least one
  page whose extracted text holds a character that is not whitespace, the handler answers
  \<open>Success\<close> with the concatenation, in document order, of the non-empty page texts,
  each followed by exactly two newlines; a page whose text is empty or absent adds nothing.
\<close>

theorem extracted_text_is_concatenation:
  assumes "read file = Inr contents"
    and "pdfplumber_open contents = Inr (PDF (Inr (pages_of ts)))"
    and "\<exists>t\<in>set ts. \<exists>c\<in>set (text_or_empty t). \<not> isspace c"
  shows "snd (extract_text pdfplumber_open file lg) = Inr (Success (spec_text ts))"
proof -
  from assms(3) have "\<exists>c\<in>set (spec_text ts). \<not> isspace c"
    by (auto simp: set_spec_text)
  then have ne: "strip (spec_text ts) \<noteq> []"
    by (simp add: strip_Nil_iff)
  from assms(2) have "with_pdf pdfplumber_open contents = Inr (spec_text ts)"
    by (rule with_pdf_pages_of)
  with assms(1) have "snd (extract_text pdfplumber_open file lg) =
      Inr (Success (if strip (spec_text ts) \<noteq> [] then spec_text ts
                    else placeholder (filename file) (length contents)))"
    by (rule extract_text_returns)
  with ne show ?thesis by simp
qed

text \<open>Four pages, the second without text and the third with the empty text.\<close>

theorem extracted_text_is_concatenation_witness:
  "snd (extract_text
          (always (Inr (PDF (Inr (pages_of [Some (lit ''Hi''), None, Some [], Some (lit ''yo'')])))))
          (upload (lit ''a.pdf'') pdf_magic) [])
   = Inr (Success (lit ''Hi\<newline>\<newline>yo\<newline>\<newline>''))"
  using extracted_text_is_concatenation
    [of "upload (lit ''a.pdf'') pdf_magic" pdf_magic
        "always (Inr (PDF (Inr (pages_of [Some (lit ''Hi''), None, Some [], Some (lit ''yo'')]))))"
        "[Some (lit ''Hi''), None, Some [], Some (lit ''yo'')]" "[]"]
  by (simp add: upload_simps always_def spec_text_def lit_def isspace_def)

subsection \<open>Failures\<close>

text \<open>
  C2: when the parsing capability fails with an error (an instance of \<open>Exception\<close>),
  whether in \<open>pdfplumber.open\<close>, in \<open>pdf.pages\<close> or in \<open>extract_text()\<close> of some
  page after earlier pages were read, the handler catches it, logs it at error level with
  the filename and the message, and returns \<open>Failure\<close> with the error's description:
  nothing is propagated and none of the text accumulated so far is returned.
\<close>

theorem parse_failure_gives_Failure:
  assumes "read file = Inr contents"
    and "pdfplumber_open contents = Inl (PyException msg) \<or>
     (\<exists>pdf. pdfplumber_open contents = Inr pdf \<and>
        (pages pdf = Inl (PyException msg) \<or>
         (\<exists>pre post. pages pdf = Inr (pre @ Page (Inl (PyException msg)) # post) \<and>
            (\<forall>q\<in>set pre. \<exists>t. extract_text_of q = Inr t))))"
  shows "extract_text pdfplumber_open file lg =
           (log_to (log_to lg INFO (lit ''Processing PDF: '' @ filename file)) ERROR
              (lit ''Error processing PDF '' @ filename file @ lit '': '' @ msg),
            Inr (Failure msg))"
proof -
  from assms(2) have "with_pdf pdfplumber_open contents = Inl (PyException msg)"
    by (rule with_pdf_raises)
  with assms(1) show ?thesis by (rule extract_text_raises)
qed

text \<open>The second of three pages raises; the text of the first is not returned.\<close>

theorem parse_failure_gives_Failure_witness:
  "snd (extract_text
          (always (Inr (PDF (Inr ([Page (Inr (Some (lit ''Hi'')))] @
                                    Page (Inl (PyException (lit ''bad xref''))) #
                                    [Page (Inr (Some (lit ''yo'')))])))))
          (upload (lit ''a.pdf'') pdf_magic) [])
   = Inr (Failure (lit ''bad xref''))"
proof -
  let ?pdf = "PDF (Inr ([Page (Inr (Some (lit ''Hi'')))] @
                 Page (Inl (PyException (lit ''bad xref''))) # [Page (Inr (Some (lit ''yo'')))]))"
  let ?file = "upload (lit ''a.pdf'') pdf_magic"
  have r: "read ?file = Inr pdf_magic"
    by (simp add: upload_def)
  have "\<exists>pre post. pages ?pdf = Inr (pre @ Page (Inl (PyException (lit ''bad xref''))) # post) \<and>
            (\<forall>q\<in>set pre. \<exists>t. extract_text_of q = Inr t)"
    by (rule exI [of _ "[Page (Inr (Some (lit ''Hi'')))]"],
        rule exI [of _ "[Page (Inr (Some (lit ''yo'')))]"]) simp
  then have h: "always (Inr ?pdf) pdf_magic = Inl (PyException (lit ''bad xref'')) \<or>
     (\<exists>pdf. always (Inr ?pdf) pdf_magic = Inr pdf \<and>
        (pages pdf = Inl (PyException (lit ''bad xref'')) \<or>
         (\<exists>pre post. pages pdf = Inr (pre @ Page (Inl (PyException (lit ''bad xref''))) # post) \<and>
            (\<forall>q\<in>set pre. \<exists>t. extract_text_of q = Inr t))))"
    by (simp add: always_def)
  have "extract_text (always (Inr ?pdf)) ?file [] =
           (log_to (log_to [] INFO (lit ''Processing PDF: '' @ filename ?file)) ERROR
              (lit ''Error processing PDF '' @ filename ?file @ lit '': '' @ lit ''bad xref''),
            Inr (Failure (lit ''bad xref'')))"
    using r h by (rule parse_failure_gives_Failure)
  then show ?thesis by simp
qed

subsection \<open>The placeholder\<close>

lemma extract_text_placeholder:
  assumes "read file = Inr contents" and "with_pdf pdfplumber_open contents = Inr txt"
    and "strip txt = []"
  shows "extract_text pdfplumber_open file lg =
           (log_to (log_to lg INFO (lit ''Processing PDF: '' @ filename file)) WARNING
              (lit ''No text extracted from '' @ filename file @ lit '' - possibly image-based PDF''),
            Inr (Success (placeholder (filename file) (length contents))))"
  using assms by (simp add: extract_text_def try_body_def Let_def)

lemma blank_pages_strip:
  assumes "\<forall>t\<in>set ts. \<forall>c\<in>set (text_or_empty t). isspace c"
  shows "strip (spec_text ts) = []"
  using assms by (auto simp: strip_Nil_iff set_spec_text isspace_10)

lemma not_truthy_text_or_empty: "\<not> truthy t \<Longrightarrow> text_or_empty t = []"
  by (cases t) simp_all

lemma size_kb_shape:
  "\<exists>whole frac. size_kb n = whole @ lit ''.'' @ frac \<and> length frac = 2 \<and>
     (\<forall>c\<in>set (whole @ frac). 48 \<le> c \<and> c \<le> 57)"
proof -
  let ?q = "hundredths n"
  let ?frac = "[48 + ?q mod 100 div 10, 48 + ?q mod 10]"
  have "?q mod 100 div 10 < 10" by (simp add: less_mult_imp_div_less)
  moreover have "?q mod 10 < 10" by simp
  ultimately have "\<forall>c\<in>set (str_nat (?q div 100) @ ?frac). 48 \<le> c \<and> c \<le> 57"
    by (auto dest: str_nat_digits)
  moreover have "size_kb n = str_nat (?q div 100) @ lit ''.'' @ ?frac"
    by (simp add: size_kb_def format_2f_def)
  moreover have "length ?frac = 2" by simp
  ultimately show ?thesis by blast
qed

text \<open>
  C3: for every PDF in which every page yields empty or absent text, the handler returns
  \<open>Success\<close> with the placeholder: the literal filename, the file size, and the fixed
  sentence that the document appears image-based and needs OCR. The size is printed with
  exactly two decimals and is a multiple of 0.01 nearest to \<open>len(contents)/1024\<close>, that is
  within 0.005 of it. (The length is below \<open>2^53\<close>, as that of every buffer in memory, so
  that the quotient is an exact double.)
\<close>

theorem image_only_pdf_placeholder:
  assumes "read file = Inr contents" and "length contents < 2 ^ 53"
    and "pdfplumber_open contents = Inr (PDF (Inr (pages_of ts)))"
    and "\<forall>t\<in>set ts. \<not> truthy t"
  shows "snd (extract_text pdfplumber_open file lg) =
           Inr (Success (lit ''PDF Document: '' @ filename file @ lit ''\<newline>\<newline>File Size: '' @
                         size_kb (length contents) @
                         lit ''KB\<newline>\<newline>This PDF appears to be image-based. Text extraction requires OCR processing.''))
         \<and> (\<exists>whole frac. size_kb (length contents) = whole @ lit ''.'' @ frac \<and> length frac = 2 \<and>
               (\<forall>c\<in>set (whole @ frac). 48 \<le> c \<and> c \<le> 57))
         \<and> \<bar>real (printed_hundredths (size_kb (length contents))) / 100 - real (length contents) / 1024\<bar>
               \<le> 1 / 200"
proof -
  from assms(4) have "\<forall>t\<in>set ts. \<forall>c\<in>set (text_or_empty t). isspace c"
    by (simp add: not_truthy_text_or_empty)
  then have blank: "strip (spec_text ts) = []" by (rule blank_pages_strip)
  from assms(3) have "with_pdf pdfplumber_open contents = Inr (spec_text ts)"
    by (rule with_pdf_pages_of)
  with assms(1) have "extract_text pdfplumber_open file lg =
           (log_to (log_to lg INFO (lit ''Processing PDF: '' @ filename file)) WARNING
              (lit ''No text extracted from '' @ filename file @ lit '' - possibly image-based PDF''),
            Inr (Success (placeholder (filename file) (length contents))))"
    using blank by (rule extract_text_placeholder)
  then have "snd (extract_text pdfplumber_open file lg) =
      Inr (Success (placeholder (filename file) (length contents)))"
    by simp
  then show ?thesis
    using size_kb_shape [of "length contents"] size_kb_near [of "length contents"]
    by (simp only: placeholder_def simp_thms)
qed

text \<open>Two pages without text in a file of 128 bytes, which is 0.125 KB: a tie, printed 0.12.\<close>

theorem image_only_pdf_placeholder_witness:
  "snd (extract_text (always (Inr (PDF (Inr (pages_of [None, Some []])))))
          (upload (lit ''scan.pdf'') (replicate 128 0)) [])
   = Inr (Success (lit ''PDF Document: scan.pdf\<newline>\<newline>File Size: 0.12KB\<newline>\<newline>This PDF appears to be image-based. Text extraction requires OCR processing.''))"
  using image_only_pdf_placeholder
    [of "upload (lit ''scan.pdf'') (replicate 128 0)" "replicate 128 0"
        "always (Inr (PDF (Inr (pages_of [None, Some []]))))" "[None, Some []]" "[]"]
  by (simp add: upload_simps always_def lit_def size_kb_def format_2f_def hundredths_def
      round_half_even_def str_nat.simps)

subsection \<open>What is returned on success\<close>

lemma with_pdf_suffix:
  assumes "with_pdf pdfplumber_open contents = Inr txt"
  shows "txt = [] \<or> last txt = 10"
proof -
  from assms obtain ps where "pages_loop ps [] = Inr txt"
    by (auto simp: with_pdf_def split: sum.splits)
  from pages_loop_suffix [OF this] show ?thesis by simp
qed

text \<open>
  C4: whenever the accumulated text is non-empty after stripping, the handler returns
  \<open>Success\<close> with the accumulated text itself. The stripped copy only decides the branch:
  it is never the text returned, since the accumulated text ends with a newline and the
  stripped copy does not.
\<close>

theorem untrimmed_text_returned:
  assumes "read file = Inr contents" and "with_pdf pdfplumber_open contents = Inr txt"
    and "strip txt \<noteq> []"
  shows "snd (extract_text pdfplumber_open file lg) = Inr (Success txt) \<and> txt \<noteq> strip txt"
proof
  from assms(1,2) have "snd (extract_text pdfplumber_open file lg) =
      Inr (Success (if strip txt \<noteq> [] then txt else placeholder (filename file) (length contents)))"
    by (rule extract_text_returns)
  with assms(3) show "snd (extract_text pdfplumber_open file lg) = Inr (Success txt)" by simp
next
  from assms(3) have "txt \<noteq> []" by (auto simp: strip_def)
  with with_pdf_suffix [OF assms(2)] have "isspace (last txt)" by (simp add: isspace_10)
  moreover from assms(3) have "\<not> isspace (last (strip txt))" by (rule last_strip_not_space)
  ultimately show "txt \<noteq> strip txt" by auto
qed

text \<open>One page with the text \<open>" Hi"\<close>: the answer keeps the leading space and the newlines.\<close>

theorem untrimmed_text_returned_witness:
  "snd (extract_text (always (Inr (PDF (Inr [Page (Inr (Some (lit '' Hi'')))]))))
          (upload (lit ''a.pdf'') pdf_magic) [])
     = Inr (Success (lit '' Hi\<newline>\<newline>'')) \<and>
   strip (lit '' Hi\<newline>\<newline>'') = lit ''Hi''"
  using untrimmed_text_returned
    [of "upload (lit ''a.pdf'') pdf_magic" pdf_magic
        "always (Inr (PDF (Inr [Page (Inr (Some (lit '' Hi'')))])))" "lit '' Hi\<newline>\<newline>''" "[]"]
  by (simp add: upload_simps always_def with_pdf_def lit_def strip_def isspace_def)

text \<open>
  C5: a valid PDF with zero pages gets the \<open>Success\<close> response with the placeholder, and
  the whole outcome (log lines and result) is that of any PDF of the same bytes and filename
  whose pages all yield empty or absent text.
\<close>

theorem zero_pages_placeholder:
  assumes "read file = Inr contents"
    and "pdfplumber_open contents = Inr (PDF (Inr []))"
    and "pdfplumber_open' contents = Inr (PDF (Inr (pages_of ts)))"
    and "\<forall>t\<in>set ts. \<not> truthy t"
  shows "snd (extract_text pdfplumber_open file lg) =
           Inr (Success (placeholder (filename file) (length contents))) \<and>
         extract_text pdfplumber_open file lg = extract_text pdfplumber_open' file lg"
proof -
  let ?answer = "(log_to (log_to lg INFO (lit ''Processing PDF: '' @ filename file)) WARNING
              (lit ''No text extracted from '' @ filename file @ lit '' - possibly image-based PDF''),
            Inr (Success (placeholder (filename file) (length contents))))"
  from assms(2) have "with_pdf pdfplumber_open contents = Inr []"
    by (simp add: with_pdf_def)
  with assms(1) have zero: "extract_text pdfplumber_open file lg = ?answer"
    by (rule extract_text_placeholder) (simp add: strip_def)
  from assms(4) have "\<forall>t\<in>set ts. \<forall>c\<in>set (text_or_empty t). isspace c"
    by (simp add: not_truthy_text_or_empty)
  then have blank: "strip (spec_text ts) = []" by (rule blank_pages_strip)
  from assms(3) have "with_pdf pdfplumber_open' contents = Inr (spec_text ts)"
    by (rule with_pdf_pages_of)
  with assms(1) have "extract_text pdfplumber_open' file lg = ?answer"
    using blank by (rule extract_text_placeholder)
  with zero show ?thesis by simp
qed

text \<open>No page, against three pages without text.\<close>

theorem zero_pages_placeholder_witness:
  "extract_text (always (Inr (PDF (Inr [])))) (upload (lit ''e.pdf'') pdf_magic) [] =
   extract_text (always (Inr (PDF (Inr (pages_of [None, Some [], None])))))
      (upload (lit ''e.pdf'') pdf_magic) []"
  using zero_pages_placeholder
    [of "upload (lit ''e.pdf'') pdf_magic" pdf_magic "always (Inr (PDF (Inr [])))"
        "always (Inr (PDF (Inr (pages_of [None, Some [], None]))))" "[None, Some [], None]" "[]"]
  by (simp add: upload_simps always_def)

text \<open>
  C9: when the PDF parses and every page text is empty, absent or made of whitespace only,
  the handler returns the placeholder, not the accumulated whitespace: a page with
  non-empty text does not suffice for its text to be returned.
\<close>

theorem whitespace_only_pdf_placeholder:
  assumes "read file = Inr contents"
    and "pdfplumber_open contents = Inr (PDF (Inr (pages_of ts)))"
    and "\<forall>t\<in>set ts. \<forall>c\<in>set (text_or_empty t). isspace c"
  shows "snd (extract_text pdfplumber_open file lg) =
           Inr (Success (placeholder (filename file) (length contents))) \<and>
         snd (extract_text pdfplumber_open file lg) \<noteq> Inr (Success (spec_text ts))"
proof -
  from assms(3) have blank: "strip (spec_text ts) = []" by (rule blank_pages_strip)
  from assms(2) have "with_pdf pdfplumber_open contents = Inr (spec_text ts)"
    by (rule with_pdf_pages_of)
  with assms(1) have "extract_text pdfplumber_open file lg =
           (log_to (log_to lg INFO (lit ''Processing PDF: '' @ filename file)) WARNING
              (lit ''No text extracted from '' @ filename file @ lit '' - possibly image-based PDF''),
            Inr (Success (placeholder (filename file) (length contents))))"
    using blank by (rule extract_text_placeholder)
  then have res: "snd (extract_text pdfplumber_open file lg) =
      Inr (Success (placeholder (filename file) (length contents)))"
    by simp
  have "80 \<in> set (placeholder (filename file) (length contents))"
    by (simp add: placeholder_def lit_def)
  moreover have "\<not> isspace 80" by (simp add: isspace_def)
  moreover from blank have "\<forall>c\<in>set (spec_text ts). isspace c" by (simp add: strip_Nil_iff)
  ultimately have "placeholder (filename file) (length contents) \<noteq> spec_text ts" by metis
  with res show ?thesis by simp
qed

text \<open>
  A page with a space, a page without text, a page with a tab, a no-break space and an
  em space: the accumulated text is eight characters long, and the placeholder is returned.
\<close>

theorem whitespace_only_pdf_placeholder_witness:
  "truthy (Some (lit '' '')) \<and>
   spec_text [Some (lit '' ''), None, Some [9, 160, 8195]] = [32, 10, 10, 9, 160, 8195, 10, 10] \<and>
   snd (extract_text (always (Inr (PDF (Inr (pages_of [Some (lit '' ''), None, Some [9, 160, 8195]])))))
          (upload (lit ''w.pdf'') pdf_magic) [])
     = Inr (Success (placeholder (lit ''w.pdf'') (length pdf_magic)))"
  using whitespace_only_pdf_placeholder
    [of "upload (lit ''w.pdf'') pdf_magic" pdf_magic
        "always (Inr (PDF (Inr (pages_of [Some (lit '' ''), None, Some [9, 160, 8195]]))))"
        "[Some (lit '' ''), None, Some [9, 160, 8195]]" "[]"]
  by (simp add: upload_simps always_def isspace_def lit_def spec_text_def)

subsection \<open>The result as a function of the inputs\<close>

lemma snd_extract_text:
  assumes "read file = Inr contents"
  shows "snd (extract_text pdfplumber_open file lg) =
     (case with_pdf pdfplumber_open contents of
        Inl (PyException msg) \<Rightarrow> Inr (Failure msg)
      | Inl (PyBaseException msg) \<Rightarrow> Inl (PyBaseException msg)
      | Inr txt \<Rightarrow> Inr (Success (if strip txt \<noteq> [] then txt
                                    else placeholder (filename file) (length contents))))"
  using assms
  by (simp add: extract_text_def try_body_def Let_def split: sum.splits py_exception.splits)

lemma extract_text_log:
  "extract_text pdfplumber_open file lg =
     (lg @ fst (extract_text pdfplumber_open file []), snd (extract_text pdfplumber_open file []))"
  by (simp add: extract_text_def try_body_def Let_def log_to_def
      split: sum.splits py_exception.splits)




text \<open>
  C7: two invocations of the handler with identical file bytes (the same outcome of
  \<open>read()\<close>) and identical filename yield identical results, whatever the log held before
  each of them; they also emit the same log records. The parser is a function of the bytes.
\<close>

theorem handler_is_deterministic:
  assumes "filename file = filename file'" and "read file = read file'"
  shows "snd (extract_text pdfplumber_open file lg) = snd (extract_text pdfplumber_open file' lg') \<and>
         fst (extract_text pdfplumber_open file lg) = lg @ fst (extract_text pdfplumber_open file' [])"
proof -
  from assms have same: "file = file'" by simp
  have "extract_text pdfplumber_open file lg =
     (lg @ fst (extract_text pdfplumber_open file []), snd (extract_text pdfplumber_open file []))"
    by (rule extract_text_log)
  moreover have "extract_text pdfplumber_open file lg' =
     (lg' @ fst (extract_text pdfplumber_open file []), snd (extract_text pdfplumber_open file []))"
    by (rule extract_text_log)
  ultimately show ?thesis by (simp add: same [symmetric])
qed

text \<open>The same upload on a fresh log and after a failed request.\<close>

theorem handler_is_deterministic_witness:
  "snd (extract_text (always (Inr (PDF (Inr (pages_of [Some (lit ''Hi'')])))))
          (upload (lit ''a.pdf'') pdf_magic) [])
   = snd (extract_text (always (Inr (PDF (Inr (pages_of [Some (lit ''Hi'')])))))
          (upload (lit ''a.pdf'') pdf_magic) [(ERROR, lit ''Error processing PDF b.pdf: bad'')])"
  using handler_is_deterministic
    [of "upload (lit ''a.pdf'') pdf_magic" "upload (lit ''a.pdf'') pdf_magic"
        "always (Inr (PDF (Inr (pages_of [Some (lit ''Hi'')]))))" "[]"
        "[(ERROR, lit ''Error processing PDF b.pdf: bad'')]"]
  by simp

text \<open>
  C10: for fixed bytes, two invocations with different filenames return identical results
  whenever parsing fails or the extracted text holds a character that is not whitespace:
  outside the placeholder branch the filename reaches the log lines only.
\<close>

theorem filename_only_in_placeholder:
  assumes "read file = Inr contents" and "read file' = Inr contents"
    and "(\<exists>e. with_pdf pdfplumber_open contents = Inl e) \<or>
         (\<exists>txt. with_pdf pdfplumber_open contents = Inr txt \<and> (\<exists>c\<in>set txt. \<not> isspace c))"
  shows "snd (extract_text pdfplumber_open file lg) = snd (extract_text pdfplumber_open file' lg')"
  using assms(3)
proof
  assume "\<exists>e. with_pdf pdfplumber_open contents = Inl e"
  then obtain e where "with_pdf pdfplumber_open contents = Inl e" ..
  then show ?thesis
    by (simp add: snd_extract_text [OF assms(1)] snd_extract_text [OF assms(2)])
next
  assume "\<exists>txt. with_pdf pdfplumber_open contents = Inr txt \<and> (\<exists>c\<in>set txt. \<not> isspace c)"
  then obtain acc where t: "with_pdf pdfplumber_open contents = Inr acc"
    and "\<exists>c\<in>set acc. \<not> isspace c" by blast
  then have "strip acc \<noteq> []" by (simp add: strip_Nil_iff)
  with t show ?thesis
    by (simp add: snd_extract_text [OF assms(1)] snd_extract_text [OF assms(2)])
qed

text \<open>The same bytes uploaded as \<open>a.pdf\<close> and as \<open>b.pdf\<close>.\<close>

theorem filename_only_in_placeholder_witness:
  "snd (extract_text (always (Inr (PDF (Inr (pages_of [Some (lit ''Hi'')])))))
          (upload (lit ''a.pdf'') pdf_magic) [])
   = snd (extract_text (always (Inr (PDF (Inr (pages_of [Some (lit ''Hi'')])))))
          (upload (lit ''b.pdf'') pdf_magic) [])"
  using filename_only_in_placeholder
    [of "upload (lit ''a.pdf'') pdf_magic" pdf_magic "upload (lit ''b.pdf'') pdf_magic"
        "always (Inr (PDF (Inr (pages_of [Some (lit ''Hi'')]))))" "[]" "[]"]
  by (simp add: upload_simps always_def with_pdf_def pages_of_def lit_def isspace_def)

subsection \<open>Process configuration\<close>

text \<open>
  C8: the listening port is 8000 when the environment variable \<open>PORT\<close> is unset, is what
  \<open>int\<close> makes of its value when it is set, and depends on no other variable; the host
  is always \<open>0.0.0.0\<close>, all interfaces.
\<close>

theorem port_from_environment:
  "(environ (lit ''PORT'') = None \<longrightarrow>
      main int_of_str environ = Inr \<lparr>host = lit ''0.0.0.0'', port = 8000\<rparr>) \<and>
   (environ' (lit ''PORT'') = Some v \<longrightarrow>
      main int_of_str environ' =
        (case int_of_str v of Inl e \<Rightarrow> Inl e | Inr p \<Rightarrow> Inr \<lparr>host = lit ''0.0.0.0'', port = p\<rparr>)) \<and>
   (env1 (lit ''PORT'') = env2 (lit ''PORT'') \<longrightarrow> main int_of_str env1 = main int_of_str env2)"
  by (simp add: main_def getenv_def)

text \<open>An environment without \<open>PORT\<close>, one with \<open>PORT=8080\<close>, and one with another variable beside it.\<close>

theorem port_from_environment_witness:
  "main (always (Inr 8080)) [lit ''HOME'' \<mapsto> lit ''/root''] = Inr \<lparr>host = lit ''0.0.0.0'', port = 8000\<rparr> \<and>
   main (always (Inr 8080)) [lit ''PORT'' \<mapsto> lit ''8080''] = Inr \<lparr>host = lit ''0.0.0.0'', port = 8080\<rparr> \<and>
   main (always (Inr 8080)) [lit ''PORT'' \<mapsto> lit ''8080'', lit ''HOME'' \<mapsto> lit ''/root'']
     = main (always (Inr 8080)) [lit ''PORT'' \<mapsto> lit ''8080'']"
  using port_from_environment
    [of "[lit ''HOME'' \<mapsto> lit ''/root'']" "always (Inr 8080)" "[lit ''PORT'' \<mapsto> lit ''8080'']"
        "lit ''8080''" "[lit ''PORT'' \<mapsto> lit ''8080'', lit ''HOME'' \<mapsto> lit ''/root'']"
        "[lit ''PORT'' \<mapsto> lit ''8080'']"]
  by (simp add: lit_def always_def)

end
